theory Spec2Isabelle
  imports Main "HOL-Library.Word"
begin

section \<open>The Wisconsin sales downloader (wi_sales_downloader.py)\<close>

text \<open>
  The script is a linear batch job: it enumerates months, probes two URLs per month with
  HEAD requests, downloads the variant that exists, re-encodes the CSV as UTF-8 and counts
  what it did.  Everything outside the script (the HTTP server, the zip library, the
  file system, the platform's line separator and the text codecs) is a field of the
  environment record below; the script's own control flow is translated function by
  function.  Console output is a trace of message values.  Inside the fetchers, where
  the script's own handlers can catch what \<open>print\<close> raises, a line that the console
  cannot encode raises \<open>UnicodeEncodeError\<close>; the lines that \<open>main\<close> prints itself are
  outside every \<open>try\<close> and are taken to be printed.
\<close>

subsection \<open>Exceptions, console messages and events\<close>

type_synonym byte = "8 word"

text \<open>The kinds of \<open>requests.RequestException\<close> the claims name, and the rest.\<close>

datatype request_error = Timeout | ConnectionError | HTTPError | OtherRequestError

text \<open>
  The exception classes the handlers of the script tell apart.  \<open>KeyboardInterrupt\<close>
  stands for the \<open>BaseException\<close>s that \<open>except Exception\<close> does not catch.
\<close>

datatype exn =
    RequestException request_error
  | BadZipFile
  | UnicodeDecodeError
  | UnicodeEncodeError
  | KeyError
  | OSError
  | ValueError
  | OtherException
  | KeyboardInterrupt

fun is_RequestException :: "exn \<Rightarrow> bool" where
  "is_RequestException (RequestException k) = True"
| "is_RequestException e = False"

text \<open>\<open>UnicodeDecodeError\<close> and \<open>UnicodeEncodeError\<close> are the subclasses of \<open>UnicodeError\<close>.\<close>

fun is_UnicodeError :: "exn \<Rightarrow> bool" where
  "is_UnicodeError UnicodeDecodeError = True"
| "is_UnicodeError UnicodeEncodeError = True"
| "is_UnicodeError e = False"

fun is_Exception :: "exn \<Rightarrow> bool" where
  "is_Exception KeyboardInterrupt = False"
| "is_Exception e = True"

datatype encoding = Utf8 | Cp1252 | Latin1

text \<open>One constructor per \<open>print\<close> call of the script, with the values it interpolates.\<close>

datatype message =
    TargetDirectory string
  | StartingFrom string
  | BlankLine
  | Downloading string
  | Saved string encoding
  | FailedToDownload string exn
  | InvalidZip string
  | FailedToProcess string exn
  | Skipping string
  | NotFound string
  | Stopping nat
  | Summary nat nat

text \<open>
  What a run does to the outside world, in order: HEAD and GET requests, a completed
  \<open>write_text\<close> with the bytes that reached the file, a \<open>write_text\<close> that raised, and
  console lines.
\<close>

datatype event =
    Head string
  | Get string
  | Write string "byte list"
  | WriteFailed string
  | Print message

subsection \<open>The console\<close>

text \<open>
  \<open>print\<close> encodes its line with the encoding of \<open>sys.stdout\<close> and raises
  \<open>UnicodeEncodeError\<close> when a character of the line has no encoding there.  The
  script prints ASCII text and three marks: U+2713 in the line that reports a saved
  file, U+2717 in the three lines that report a failure, U+2298 in the lines for a
  skipped and for a missing month.  The standard codecs fall into three kinds: the
  Unicode encodings (UTF-8, UTF-16, UTF-32, GB18030) encode all three marks, as does
  any encoding used with a lenient error handler; the JIS X 0213 encodings encode
  U+2713 only; all others (ascii, cp1252, latin-1, cp437, ...) encode none of them.
\<close>

datatype console_kind = Unicode | CheckMarkOnly | Legacy

fun encodes :: "console_kind \<Rightarrow> nat \<Rightarrow> bool" where
  "encodes Unicode cp = True"
| "encodes CheckMarkOnly cp = (cp = 0x2713)"
| "encodes Legacy cp = False"

fun mark :: "message \<Rightarrow> nat option" where
  "mark (Saved name enc) = Some 0x2713"
| "mark (FailedToDownload name ex) = Some 0x2717"
| "mark (InvalidZip name) = Some 0x2717"
| "mark (FailedToProcess name ex) = Some 0x2717"
| "mark (Skipping name) = Some 0x2298"
| "mark (NotFound name) = Some 0x2298"
| "mark m = None"

definition can_print :: "console_kind \<Rightarrow> message \<Rightarrow> bool" where
  "can_print k m = (case mark m of None \<Rightarrow> True | Some cp \<Rightarrow> encodes k cp)"

subsection \<open>The environment\<close>

text \<open>
  \<open>http_head url\<close> is the outcome of \<open>requests.head(url, timeout=10)\<close>: the status code
  of the response, or the exception raised.  \<open>http_get url\<close> is the outcome of
  \<open>requests.get(url, timeout=30)\<close>: status code and body.  \<open>zip_read content name\<close> is
  \<open>ZipFile(BytesIO(content)).read(name)\<close>.  \<open>decode\<close> is \<open>bytes.decode\<close>; text is a list
  of code points.  \<open>disk_open path\<close> is the exception raised when \<open>path\<close> is opened for
  writing, if any, and \<open>disk_flush path bytes\<close> the exception raised when the encoded
  text is written out and the file closed, if any.  \<open>linesep\<close> is \<open>os.linesep\<close>.
  \<open>now_year\<close> and \<open>now_month\<close> are the fields of \<open>datetime.now()\<close>.  \<open>mkdir_error\<close> is
  what \<open>Path.mkdir(parents=True, exist_ok=True)\<close> raises, if anything, and \<open>listdir\<close>
  gives the names of the entries of a directory.  \<open>console\<close> is the kind of encoding
  that \<open>sys.stdout\<close> has.
\<close>

record env =
  http_head :: "string \<Rightarrow> exn + nat"
  http_get :: "string \<Rightarrow> exn + nat \<times> byte list"
  zip_read :: "byte list \<Rightarrow> string \<Rightarrow> exn + byte list"
  decode :: "encoding \<Rightarrow> byte list \<Rightarrow> exn + nat list"
  disk_open :: "string \<Rightarrow> exn option"
  disk_flush :: "string \<Rightarrow> byte list \<Rightarrow> exn option"
  linesep :: "nat list"
  now_year :: int
  now_month :: int
  mkdir_error :: "string \<Rightarrow> exn option"
  listdir :: "string \<Rightarrow> string list"
  console :: console_kind

text \<open>A \<open>print\<close> call inside a \<open>try\<close>: the line appears, or the call raises.\<close>

definition print_line :: "env \<Rightarrow> message \<Rightarrow> (exn + unit) \<times> event list" where
  "print_line e m =
     (if can_print (console e) m then (Inr (), [Print m]) else (Inl UnicodeEncodeError, []))"

subsection \<open>The codecs of CPython\<close>

text \<open>
  \<open>bytes.decode('utf-8')\<close> is strict: it rejects overlong forms, the surrogates
  U+D800..U+DFFF, code points above U+10FFFF and truncated sequences, and it keeps a
  byte order mark.  The second byte of a three- or four-byte sequence has the narrowed
  range that excludes exactly those cases.
\<close>

definition is_cont :: "nat \<Rightarrow> bool" where
  "is_cont b = (0x80 \<le> b \<and> b \<le> 0xBF)"

definition second_ok :: "nat \<Rightarrow> nat \<Rightarrow> bool" where
  "second_ok a b =
     (if a = 0xE0 then 0xA0 \<le> b \<and> b \<le> 0xBF
      else if a = 0xED then 0x80 \<le> b \<and> b \<le> 0x9F
      else if a = 0xF0 then 0x90 \<le> b \<and> b \<le> 0xBF
      else if a = 0xF4 then 0x80 \<le> b \<and> b \<le> 0x8F
      else is_cont b)"

fun utf8_dec :: "nat list \<Rightarrow> nat list option" where
  "utf8_dec [] = Some []"
| "utf8_dec (a # bs) =
     (if a < 0x80 then map_option ((#) a) (utf8_dec bs)
      else if a < 0xC2 then None
      else if a < 0xE0 then
        (case bs of
           b # r \<Rightarrow>
             if is_cont b
             then map_option ((#) ((a - 0xC0) * 64 + (b - 0x80))) (utf8_dec r)
             else None
         | _ \<Rightarrow> None)
      else if a < 0xF0 then
        (case bs of
           b # c # r \<Rightarrow>
             if second_ok a b \<and> is_cont c
             then map_option
                    ((#) (((a - 0xE0) * 64 + (b - 0x80)) * 64 + (c - 0x80))) (utf8_dec r)
             else None
         | _ \<Rightarrow> None)
      else if a < 0xF5 then
        (case bs of
           b # c # d # r \<Rightarrow>
             if second_ok a b \<and> is_cont c \<and> is_cont d
             then map_option
                    ((#) ((((a - 0xF0) * 64 + (b - 0x80)) * 64 + (c - 0x80)) * 64
                          + (d - 0x80)))
                    (utf8_dec r)
             else None
         | _ \<Rightarrow> None)
      else None)"

definition utf8_decode :: "byte list \<Rightarrow> nat list option" where
  "utf8_decode bs = utf8_dec (map unat bs)"

text \<open>\<open>str.encode('utf-8')\<close>, strict: a surrogate cannot be encoded.\<close>

definition utf8_enc1 :: "nat \<Rightarrow> nat list option" where
  "utf8_enc1 cp =
     (if cp < 0x80 then Some [cp]
      else if cp < 0x800 then Some [0xC0 + cp div 64, 0x80 + cp mod 64]
      else if cp < 0x10000 then
        (if 0xD800 \<le> cp \<and> cp \<le> 0xDFFF then None
         else Some [0xE0 + cp div 4096, 0x80 + cp div 64 mod 64, 0x80 + cp mod 64])
      else if cp < 0x110000 then
        Some [0xF0 + cp div 262144, 0x80 + cp div 4096 mod 64,
              0x80 + cp div 64 mod 64, 0x80 + cp mod 64]
      else None)"

fun utf8_enc :: "nat list \<Rightarrow> nat list option" where
  "utf8_enc [] = Some []"
| "utf8_enc (cp # cps) =
     (case utf8_enc1 cp of
        None \<Rightarrow> None
      | Some bs \<Rightarrow> map_option ((@) bs) (utf8_enc cps))"

definition utf8_encode :: "nat list \<Rightarrow> byte list option" where
  "utf8_encode text = map_option (map of_nat) (utf8_enc text)"

text \<open>
  \<open>cp1252\<close>: bytes below 0x80 and from 0xA0 are their own code points; 0x80..0x9F go
  through the table, where five bytes are undefined and make the decoder raise.
\<close>

definition cp1252_table :: "nat option list" where
  "cp1252_table =
     [Some 0x20AC, None, Some 0x201A, Some 0x0192, Some 0x201E, Some 0x2026, Some 0x2020,
      Some 0x2021, Some 0x02C6, Some 0x2030, Some 0x0160, Some 0x2039, Some 0x0152, None,
      Some 0x017D, None, None, Some 0x2018, Some 0x2019, Some 0x201C, Some 0x201D,
      Some 0x2022, Some 0x2013, Some 0x2014, Some 0x02DC, Some 0x2122, Some 0x0161,
      Some 0x203A, Some 0x0153, None, Some 0x017E, Some 0x0178]"

definition cp1252_byte :: "nat \<Rightarrow> nat option" where
  "cp1252_byte n = (if n < 0x80 \<or> 0xA0 \<le> n then Some n else cp1252_table ! (n - 0x80))"

definition cp1252_decode :: "byte list \<Rightarrow> nat list option" where
  "cp1252_decode bs = those (map (\<lambda>b. cp1252_byte (unat b)) bs)"

text \<open>\<open>latin-1\<close>: every byte is its own code point.\<close>

definition latin1_decode :: "byte list \<Rightarrow> nat list" where
  "latin1_decode bs = map unat bs"

definition py_decode :: "encoding \<Rightarrow> byte list \<Rightarrow> exn + nat list" where
  "py_decode enc bs =
     (case enc of
        Utf8 \<Rightarrow> (case utf8_decode bs of None \<Rightarrow> Inl UnicodeDecodeError | Some t \<Rightarrow> Inr t)
      | Cp1252 \<Rightarrow> (case cp1252_decode bs of None \<Rightarrow> Inl UnicodeDecodeError | Some t \<Rightarrow> Inr t)
      | Latin1 \<Rightarrow> Inr (latin1_decode bs))"

subsection \<open>\<open>Path.write_text(text, encoding='utf-8')\<close>\<close>

text \<open>
  \<open>write_text\<close> opens the file in text mode with the default \<open>newline=None\<close>: the file
  is created or truncated, every \<open>'\n'\<close> of the text is written as \<open>os.linesep\<close>, the
  result is encoded, and the bytes reach the file when it is closed.
\<close>

definition translate_newlines :: "nat list \<Rightarrow> nat list \<Rightarrow> nat list" where
  "translate_newlines sep text = concat (map (\<lambda>c. if c = 10 then sep else [c]) text)"

definition write_text :: "env \<Rightarrow> string \<Rightarrow> nat list \<Rightarrow> (exn + unit) \<times> event list" where
  "write_text e path text =
     (case disk_open e path of
        Some ex \<Rightarrow> (Inl ex, [WriteFailed path])
      | None \<Rightarrow>
          (case utf8_encode (translate_newlines (linesep e) text) of
             None \<Rightarrow> (Inl UnicodeEncodeError, [WriteFailed path])
           | Some bs \<Rightarrow>
               (case disk_flush e path bs of
                  Some ex \<Rightarrow> (Inl ex, [WriteFailed path])
                | None \<Rightarrow> (Inr (), [Write path bs]))))"

subsection \<open>\<open>file_exists\<close>\<close>

definition file_exists :: "env \<Rightarrow> string \<Rightarrow> exn + bool" where
  "file_exists e url =
     (case http_head e url of
        Inr status_code \<Rightarrow> Inr (status_code = 200)
      | Inl ex \<Rightarrow> (if is_RequestException ex then Inr False else Inl ex))"

subsection \<open>The encoding trials (lines 92-103 and 129-140)\<close>

text \<open>
  Both fetchers contain the same loop over \<open>['utf-8', 'cp1252', 'latin-1']\<close>; they
  differ only in the name they print.  \<open>try_encoding\<close> is the body of the inner
  \<open>try\<close>: decode, write, print, each of which may raise.
\<close>

definition try_encoding ::
  "env \<Rightarrow> string \<Rightarrow> string \<Rightarrow> byte list \<Rightarrow> encoding \<Rightarrow> (exn + unit) \<times> event list" where
  "try_encoding e csv_path name csv_content enc =
     (case decode e enc csv_content of
        Inl ex \<Rightarrow> (Inl ex, [])
      | Inr text \<Rightarrow>
          (case write_text e csv_path text of
             (Inl ex, evs) \<Rightarrow> (Inl ex, evs)
           | (Inr u, evs) \<Rightarrow>
               (case print_line e (Saved name enc) of
                  (Inl ex, evs') \<Rightarrow> (Inl ex, evs @ evs')
                | (Inr u', evs') \<Rightarrow> (Inr (), evs @ evs'))))"

text \<open>
  How control leaves the \<open>for\<close> loop: \<open>return True\<close> inside an iteration, an exception
  (re-raised by the handler at \<open>latin-1\<close>, or not a \<open>UnicodeError\<close> at all), or the end
  of the list, after which the fetcher reaches its \<open>return False\<close>.
\<close>

datatype loop_result = ReturnTrue | Raise exn | FallThrough

fun encoding_loop ::
  "env \<Rightarrow> string \<Rightarrow> string \<Rightarrow> byte list \<Rightarrow> encoding list \<Rightarrow> loop_result \<times> event list" where
  "encoding_loop e csv_path name csv_content [] = (FallThrough, [])"
| "encoding_loop e csv_path name csv_content (enc # encs) =
     (case try_encoding e csv_path name csv_content enc of
        (Inr u, evs) \<Rightarrow> (ReturnTrue, evs)
      | (Inl ex, evs) \<Rightarrow>
          if is_UnicodeError ex then
            (if enc = Latin1 then (Raise ex, evs)
             else (case encoding_loop e csv_path name csv_content encs of
                     (r, evs') \<Rightarrow> (r, evs @ evs')))
          else (Raise ex, evs))"

definition encodings :: "encoding list" where
  "encodings = [Utf8, Cp1252, Latin1]"

definition convert_to_utf8 ::
  "env \<Rightarrow> string \<Rightarrow> string \<Rightarrow> byte list \<Rightarrow> (exn + bool) \<times> event list" where
  "convert_to_utf8 e csv_path name csv_content =
     (case encoding_loop e csv_path name csv_content encodings of
        (ReturnTrue, evs) \<Rightarrow> (Inr True, evs)
      | (Raise ex, evs) \<Rightarrow> (Inl ex, evs)
      | (FallThrough, evs) \<Rightarrow> (Inr False, evs))"

subsection \<open>The fetchers\<close>

text \<open>\<open>Response.raise_for_status\<close> raises \<open>HTTPError\<close> for the statuses 400 to 599.\<close>

definition raise_for_status :: "nat \<Rightarrow> exn + unit" where
  "raise_for_status status_code =
     (if 400 \<le> status_code \<and> status_code < 600 then Inl (RequestException HTTPError)
      else Inr ())"

text \<open>\<open>filename.replace(".zip", ".csv")\<close> replaces every occurrence, left to right.\<close>

function replace_zip_csv :: "string \<Rightarrow> string" where
  "replace_zip_csv s =
     (if s = [] then []
      else if take 4 s = ''.zip'' then ''.csv'' @ replace_zip_csv (drop 4 s)
      else hd s # replace_zip_csv (tl s))"
  by pat_completeness auto
termination
  by (relation "measure length") auto

declare replace_zip_csv.simps [simp del]

text \<open>\<open>target_path / name\<close> for a relative name.\<close>

definition path_join :: "string \<Rightarrow> string \<Rightarrow> string" where
  "path_join dir name = dir @ ''/'' @ name"

text \<open>
  What each handler of the outer \<open>try\<close> does with the trace so far: it prints its
  line and returns false; when the line cannot be printed, the \<open>UnicodeEncodeError\<close>
  leaves the fetcher.
\<close>

definition report_failure ::
  "env \<Rightarrow> message \<Rightarrow> event list \<Rightarrow> (exn + bool) \<times> event list" where
  "report_failure e m evs =
     (case print_line e m of
        (Inl ex, evs') \<Rightarrow> (Inl ex, evs @ evs')
      | (Inr u, evs') \<Rightarrow> (Inr False, evs @ evs'))"

text \<open>The body of the outer \<open>try\<close> of \<open>download_and_extract\<close> (lines 78-105).\<close>

definition download_and_extract_body ::
  "env \<Rightarrow> string \<Rightarrow> string \<Rightarrow> string \<Rightarrow> (exn + bool) \<times> event list" where
  "download_and_extract_body e url target_path filename =
     (case print_line e (Downloading filename) of
        (Inl ex, evs0) \<Rightarrow> (Inl ex, evs0)
      | (Inr u0, evs0) \<Rightarrow>
          (let started = evs0 @ [Get url] in
           case http_get e url of
             Inl ex \<Rightarrow> (Inl ex, started)
           | Inr (status_code, content) \<Rightarrow>
               (case raise_for_status status_code of
                  Inl ex \<Rightarrow> (Inl ex, started)
                | Inr u \<Rightarrow>
                    (let csv_filename = replace_zip_csv filename;
                         csv_path = path_join target_path csv_filename
                     in case zip_read e content csv_filename of
                          Inl ex \<Rightarrow> (Inl ex, started)
                        | Inr csv_content \<Rightarrow>
                            (case convert_to_utf8 e csv_path csv_filename csv_content of
                               (r, evs) \<Rightarrow> (r, started @ evs))))))"

text \<open>The handlers of lines 106-114, in the order Python tries them.\<close>

definition download_and_extract ::
  "env \<Rightarrow> string \<Rightarrow> string \<Rightarrow> string \<Rightarrow> (exn + bool) \<times> event list" where
  "download_and_extract e url target_path filename =
     (case download_and_extract_body e url target_path filename of
        (Inr b, evs) \<Rightarrow> (Inr b, evs)
      | (Inl ex, evs) \<Rightarrow>
          if is_RequestException ex
          then report_failure e (FailedToDownload filename ex) evs
          else if ex = BadZipFile
          then report_failure e (InvalidZip filename) evs
          else if is_Exception ex
          then report_failure e (FailedToProcess filename ex) evs
          else (Inl ex, evs))"

text \<open>The body of the outer \<open>try\<close> of \<open>download_csv_direct\<close> (lines 120-142).\<close>

definition download_csv_direct_body ::
  "env \<Rightarrow> string \<Rightarrow> string \<Rightarrow> string \<Rightarrow> (exn + bool) \<times> event list" where
  "download_csv_direct_body e url target_path filename =
     (case print_line e (Downloading filename) of
        (Inl ex, evs0) \<Rightarrow> (Inl ex, evs0)
      | (Inr u0, evs0) \<Rightarrow>
          (let started = evs0 @ [Get url] in
           case http_get e url of
             Inl ex \<Rightarrow> (Inl ex, started)
           | Inr (status_code, content) \<Rightarrow>
               (case raise_for_status status_code of
                  Inl ex \<Rightarrow> (Inl ex, started)
                | Inr u \<Rightarrow>
                    (let csv_content = content;
                         csv_path = path_join target_path filename
                     in case convert_to_utf8 e csv_path filename csv_content of
                          (r, evs) \<Rightarrow> (r, started @ evs)))))"

text \<open>The handlers of lines 143-148.\<close>

definition download_csv_direct ::
  "env \<Rightarrow> string \<Rightarrow> string \<Rightarrow> string \<Rightarrow> (exn + bool) \<times> event list" where
  "download_csv_direct e url target_path filename =
     (case download_csv_direct_body e url target_path filename of
        (Inr b, evs) \<Rightarrow> (Inr b, evs)
      | (Inl ex, evs) \<Rightarrow>
          if is_RequestException ex
          then report_failure e (FailedToDownload filename ex) evs
          else if is_Exception ex
          then report_failure e (FailedToProcess filename ex) evs
          else (Inl ex, evs))"

subsection \<open>\<open>generate_months\<close>\<close>


















subsection \<open>\<open>main\<close>\<close>

definition BASE_URL :: string where
  "BASE_URL = ''https://www.revenue.wi.gov/SLFReportsHistSales''"

definition max_consecutive_404s :: nat where
  "max_consecutive_404s = 3"

record counters =
  downloaded :: nat
  skipped :: nat
  consecutive_404s :: nat




text \<open>How one iteration of the \<open>for\<close> loop ends.\<close>

datatype control = Continue | Break | Abort exn

text \<open>The body of the \<open>for\<close> loop (lines 170-204) for one month.\<close>

definition process_month ::
  "env \<Rightarrow> string \<Rightarrow> string set \<Rightarrow> string \<Rightarrow> counters \<Rightarrow> (control \<times> counters) \<times> event list" where
  "process_month e path existing month c =
     (let filename = month @ ''CSV'';
          csv_name = filename @ ''.csv''
      in if filename \<in> existing
         then ((Continue, c\<lparr>skipped := skipped c + 1\<rparr>), [Print (Skipping csv_name)])
         else
           (let zip_url = BASE_URL @ ''/'' @ filename @ ''.zip'';
                csv_url = BASE_URL @ ''/'' @ csv_name
            in case file_exists e zip_url of
                 Inl ex \<Rightarrow> ((Abort ex, c), [Head zip_url])
               | Inr True \<Rightarrow>
                   (let c1 = c\<lparr>consecutive_404s := 0\<rparr>
                    in case download_and_extract e zip_url path (filename @ ''.zip'') of
                         (Inl ex, evs) \<Rightarrow> ((Abort ex, c1), Head zip_url # evs)
                       | (Inr ok, evs) \<Rightarrow>
                           ((Continue, if ok then c1\<lparr>downloaded := downloaded c1 + 1\<rparr> else c1),
                            Head zip_url # evs))
               | Inr False \<Rightarrow>
                   (case file_exists e csv_url of
                      Inl ex \<Rightarrow> ((Abort ex, c), [Head zip_url, Head csv_url])
                    | Inr True \<Rightarrow>
                        (let c1 = c\<lparr>consecutive_404s := 0\<rparr>
                         in case download_csv_direct e csv_url path csv_name of
                              (Inl ex, evs) \<Rightarrow>
                                ((Abort ex, c1), Head zip_url # Head csv_url # evs)
                            | (Inr ok, evs) \<Rightarrow>
                                ((Continue,
                                  if ok then c1\<lparr>downloaded := downloaded c1 + 1\<rparr> else c1),
                                 Head zip_url # Head csv_url # evs))
                    | Inr False \<Rightarrow>
                        (let c1 = c\<lparr>consecutive_404s := consecutive_404s c + 1\<rparr>;
                             evs = [Head zip_url, Head csv_url, Print (NotFound filename)]
                         in if consecutive_404s c1 \<ge> max_consecutive_404s
                            then ((Break, c1), evs @ [Print (Stopping max_consecutive_404s)])
                            else ((Continue, c1), evs)))))"



definition initial_counters :: counters where
  "initial_counters = \<lparr>downloaded = 0, skipped = 0, consecutive_404s = 0\<rparr>"


subsection \<open>Names used in the statements\<close>

text \<open>The two URLs that \<open>main\<close> builds for a month.\<close>

definition zip_url :: "string \<Rightarrow> string" where
  "zip_url month = BASE_URL @ ''/'' @ month @ ''CSV.zip''"

definition csv_url :: "string \<Rightarrow> string" where
  "csv_url month = BASE_URL @ ''/'' @ month @ ''CSV.csv''"

text \<open>The events that touch the target file.\<close>

fun is_write :: "event \<Rightarrow> bool" where
  "is_write (Write path bs) = True"
| "is_write (WriteFailed path) = True"
| "is_write ev = False"

definition writes :: "event list \<Rightarrow> event list" where
  "writes evs = filter is_write evs"

text \<open>
  No candidate that the loop attempts decodes the content: each decode it attempts
  raises, and the loop goes on to the next candidate only after a \<open>UnicodeError\<close> from
  a candidate other than \<open>latin-1\<close>.
\<close>

fun decode_attempts_fail :: "env \<Rightarrow> byte list \<Rightarrow> encoding list \<Rightarrow> bool" where
  "decode_attempts_fail e content [] = True"
| "decode_attempts_fail e content (enc # encs) =
     (case decode e enc content of
        Inr t \<Rightarrow> False
      | Inl ex \<Rightarrow>
          if is_UnicodeError ex \<and> enc \<noteq> Latin1 then decode_attempts_fail e content encs
          else True)"



text \<open>The network requests in a trace.\<close>

fun is_request :: "event \<Rightarrow> bool" where
  "is_request (Head url) = True"
| "is_request (Get url) = True"
| "is_request ev = False"

definition requests :: "event list \<Rightarrow> event list" where
  "requests evs = filter is_request evs"

fun is_get :: "event \<Rightarrow> bool" where
  "is_get (Get url) = True"
| "is_get ev = False"

text \<open>The code points that UTF-8 can encode: all but the surrogates, up to U+10FFFF.\<close>

definition scalar_value :: "nat \<Rightarrow> bool" where
  "scalar_value cp = (cp < 0xD800 \<or> (0xDFFF < cp \<and> cp < 0x110000))"

section \<open>Concrete environments\<close>

text \<open>
  An environment in which nothing can be reached: every request fails with a connection
  error, nothing is a zip archive, the codecs are CPython's, the disk accepts every
  write, lines end in \<open>'\n'\<close>, the clock shows March 2020, directories are empty and
  the console is a UTF-8 terminal.
  The examples below change the fields they need.
\<close>

definition offline :: env where
  "offline =
     \<lparr>http_head = (\<lambda>url. Inl (RequestException ConnectionError)),
      http_get = (\<lambda>url. Inl (RequestException ConnectionError)),
      zip_read = (\<lambda>content name. Inl BadZipFile),
      decode = py_decode,
      disk_open = (\<lambda>path. None),
      disk_flush = (\<lambda>path bs. None),
      linesep = [10],
      now_year = 2020,
      now_month = 3,
      mkdir_error = (\<lambda>path. None),
      listdir = (\<lambda>path. []),
      console = Unicode\<rparr>"

text \<open>Every file is there, as an archive and bare, and its content is the letter A.\<close>

definition served :: env where
  "served =
     offline\<lparr>http_head := (\<lambda>url. Inr 200),
             http_get := (\<lambda>url. Inr (200, [0x41])),
             zip_read := (\<lambda>content name. Inr [0x41])\<rparr>"


text \<open>A server that answers every GET with status 304 and a body.\<close>

definition not_modified :: env where
  "not_modified = offline\<lparr>http_get := (\<lambda>url. Inr (304, [0x41]))\<rparr>"


text \<open>A platform whose line separator is \<open>'\r\n'\<close>, serving a file that is one line feed.\<close>

definition crlf :: env where
  "crlf = offline\<lparr>http_get := (\<lambda>url. Inr (200, [0x0A])), linesep := [13, 10]\<rparr>"

section \<open>Properties\<close>

subsection \<open>Evaluation of the examples\<close>




lemma py_decode_ascii_A: "py_decode Utf8 [0x41] = Inr [0x41]"
  by (simp add: py_decode_def utf8_decode_def)

lemma utf8_encode_A: "utf8_encode [0x41] = Some [0x41]"
  by (simp add: utf8_encode_def utf8_enc1_def)

subsection \<open>The existence prober\<close>

text \<open>
  C7.  \<open>file_exists\<close> returns true exactly when the HEAD request completes with status
  200.  Every \<open>RequestException\<close> (timeout, connection error from a DNS failure or a
  reset, and the others) makes it return false, and so does every completed response
  with another status.
\<close>

theorem file_exists_iff_200:
  "(file_exists e url = Inr True \<longleftrightarrow> http_head e url = Inr 200)
   \<and> (\<forall>k. http_head e url = Inl (RequestException k) \<longrightarrow> file_exists e url = Inr False)
   \<and> (\<forall>status. http_head e url = Inr status \<and> status \<noteq> 200
         \<longrightarrow> file_exists e url = Inr False)"
  by (auto simp: file_exists_def split: sum.splits)

theorem file_exists_iff_200_witness:
  "file_exists (offline\<lparr>http_head := \<lambda>url. Inr 200\<rparr>) ''u'' = Inr True
   \<and> file_exists (offline\<lparr>http_head := \<lambda>url. Inl (RequestException Timeout)\<rparr>) ''u''
       = Inr False
   \<and> file_exists (offline\<lparr>http_head := \<lambda>url. Inr 404\<rparr>) ''u'' = Inr False"
  using file_exists_iff_200 [of "offline\<lparr>http_head := \<lambda>url. Inr 200\<rparr>" "''u''"]
    file_exists_iff_200
      [of "offline\<lparr>http_head := \<lambda>url. Inl (RequestException Timeout)\<rparr>" "''u''"]
    file_exists_iff_200 [of "offline\<lparr>http_head := \<lambda>url. Inr 404\<rparr>" "''u''"]
  by (simp add: offline_def)

subsection \<open>The encoding trials\<close>

lemma print_line_cases:
  "print_line e m = (Inr (), [Print m]) \<and> can_print (console e) m
   \<or> print_line e m = (Inl UnicodeEncodeError, []) \<and> \<not> can_print (console e) m"
  by (simp add: print_line_def)

lemma print_Downloading [simp]:
  "print_line e (Downloading name) = (Inr (), [Print (Downloading name)])"
  by (simp add: print_line_def can_print_def)

lemma try_encoding_Inr:
  "try_encoding e p nm c enc = (Inr u, evs) \<longleftrightarrow>
     (\<exists>text bs. decode e enc c = Inr text \<and> disk_open e p = None
        \<and> utf8_encode (translate_newlines (linesep e) text) = Some bs
        \<and> disk_flush e p bs = None \<and> can_print (console e) (Saved nm enc)
        \<and> evs = [Write p bs, Print (Saved nm enc)])"
  by (auto simp: try_encoding_def write_text_def print_line_def
      split: sum.splits option.splits if_splits)

lemma try_encoding_Inl:
  "try_encoding e p nm c enc = (Inl ex, evs) \<Longrightarrow>
     (decode e enc c = Inl ex \<and> evs = []) \<or>
     ((\<exists>text. decode e enc c = Inr text)
      \<and> (evs = [WriteFailed p] \<or> (\<exists>bs. evs = [Write p bs])))"
  by (auto simp: try_encoding_def write_text_def print_line_def
      split: sum.splits option.splits if_splits)

lemma try_encoding_decode_fails:
  "decode e enc c = Inl ex \<Longrightarrow> try_encoding e p nm c enc = (Inl ex, [])"
  by (simp add: try_encoding_def)

lemma try_encoding_writes:
  "writes (snd (try_encoding e p nm c enc)) \<noteq> [] \<Longrightarrow> \<exists>text. decode e enc c = Inr text"
  by (auto simp: try_encoding_def writes_def split: sum.splits)

lemma try_encoding_decode_fails_iff:
  "decode e enc c = Inl ex \<Longrightarrow> try_encoding e p nm c enc = (r, evs) \<longleftrightarrow> r = Inl ex \<and> evs = []"
  by (auto simp: try_encoding_def)

lemma encoding_loop_not_FallThrough:
  "fst (encoding_loop e p nm c encodings) \<noteq> FallThrough"
  by (auto simp: encodings_def split: prod.splits sum.splits)

lemma encoding_loop_writes:
  "writes (snd (encoding_loop e p nm c encs)) \<noteq> [] \<Longrightarrow>
     \<exists>enc text. enc \<in> set encs \<and> decode e enc c = Inr text"
proof (induction encs)
  case Nil
  then show ?case by (simp add: writes_def)
next
  case (Cons enc encs)
  show ?case
  proof (cases "writes (snd (try_encoding e p nm c enc)) = []")
    case False
    then show ?thesis using try_encoding_writes by fastforce
  next
    case True
    with Cons.prems have "writes (snd (encoding_loop e p nm c encs)) \<noteq> []"
      by (auto simp: writes_def split: prod.splits sum.splits if_splits)
    with Cons.IH show ?thesis by auto
  qed
qed

lemma UnicodeError_handlers:
  "is_UnicodeError ex \<Longrightarrow> \<not> is_RequestException ex \<and> ex \<noteq> BadZipFile \<and> is_Exception ex"
  by (cases ex) auto

lemma convert_to_utf8_result:
  "convert_to_utf8 e p nm c \<noteq> (Inr False, evs)"
  using encoding_loop_not_FallThrough [of e p nm c]
  by (auto simp: convert_to_utf8_def split: prod.splits loop_result.splits)

lemma download_csv_direct_body_not_False:
  "fst (download_csv_direct_body e url tp fn) \<noteq> Inr False"
  by (auto simp: download_csv_direct_body_def Let_def convert_to_utf8_result
      split: sum.splits prod.splits)

lemma download_and_extract_body_not_False:
  "fst (download_and_extract_body e url tp fn) \<noteq> Inr False"
  by (auto simp: download_and_extract_body_def Let_def convert_to_utf8_result
      split: sum.splits prod.splits)

lemma encoding_loop_ReturnTrue:
  "encoding_loop e p nm c encs = (ReturnTrue, evs) \<Longrightarrow>
     \<exists>enc text bs pre. enc \<in> set encs \<and> decode e enc c = Inr text
       \<and> utf8_encode (translate_newlines (linesep e) text) = Some bs
       \<and> evs = pre @ [Write p bs, Print (Saved nm enc)]"
proof (induction encs arbitrary: evs)
  case Nil
  then show ?case by simp
next
  case (Cons enc encs)
  obtain r evs1 where t: "try_encoding e p nm c enc = (r, evs1)"
    by (cases "try_encoding e p nm c enc")
  show ?case
  proof (cases r)
    case (Inr u)
    with t Cons.prems have "evs = evs1" by simp
    with t Inr show ?thesis
      by (fastforce simp: try_encoding_Inr)
  next
    case (Inl ex)
    obtain r2 evs2 where l: "encoding_loop e p nm c encs = (r2, evs2)"
      by (cases "encoding_loop e p nm c encs")
    from t Inl l Cons.prems have "r2 = ReturnTrue" and "evs = evs1 @ evs2"
      by (auto split: if_splits)
    with l Cons.IH [of evs2] show ?thesis
      by (metis append.assoc list.set_intros(2))
  qed
qed

text \<open>
  C9.  In both fetchers the \<open>return False\<close> behind the encoding loop is never reached.
  \<open>latin-1\<close> decodes every byte sequence.  Whatever the environment does, the loop over
  the three encodings ends by returning true inside an iteration, and then a decode
  succeeded and the write of its text completed, or by raising; it never runs off the
  end of the list.  So the body of either fetcher's \<open>try\<close> never yields false.
\<close>

theorem post_loop_return_unreachable:
  "py_decode Latin1 content = Inr (latin1_decode content)
   \<and> fst (encoding_loop e csv_path name content encodings) \<noteq> FallThrough
   \<and> (fst (encoding_loop e csv_path name content encodings) = ReturnTrue \<longrightarrow>
        (\<exists>enc text bs pre. enc \<in> set encodings \<and> decode e enc content = Inr text
           \<and> utf8_encode (translate_newlines (linesep e) text) = Some bs
           \<and> snd (encoding_loop e csv_path name content encodings)
               = pre @ [Write csv_path bs, Print (Saved name enc)]))
   \<and> (fst (encoding_loop e csv_path name content encodings) = ReturnTrue
        \<or> (\<exists>ex. fst (encoding_loop e csv_path name content encodings) = Raise ex))
   \<and> fst (download_and_extract_body e url target_path filename) \<noteq> Inr False
   \<and> fst (download_csv_direct_body e url target_path filename) \<noteq> Inr False"
proof -
  have 1: "py_decode Latin1 content = Inr (latin1_decode content)"
    by (simp add: py_decode_def)
  have 2: "fst (encoding_loop e csv_path name content encodings) \<noteq> FallThrough"
    by (rule encoding_loop_not_FallThrough)
  have 3: "fst (encoding_loop e csv_path name content encodings) = ReturnTrue \<longrightarrow>
        (\<exists>enc text bs pre. enc \<in> set encodings \<and> decode e enc content = Inr text
           \<and> utf8_encode (translate_newlines (linesep e) text) = Some bs
           \<and> snd (encoding_loop e csv_path name content encodings)
               = pre @ [Write csv_path bs, Print (Saved name enc)])"
    using encoding_loop_ReturnTrue [of e csv_path name content encodings]
    by (cases "encoding_loop e csv_path name content encodings") auto
  have 4: "fst (encoding_loop e csv_path name content encodings) = ReturnTrue
        \<or> (\<exists>ex. fst (encoding_loop e csv_path name content encodings) = Raise ex)"
    using 2 by (cases "fst (encoding_loop e csv_path name content encodings)") auto
  show ?thesis
    by (intro conjI 1 2 3 4 download_and_extract_body_not_False
        download_csv_direct_body_not_False)
qed

theorem post_loop_return_unreachable_witness:
  "py_decode Latin1 [0x41] = Inr (latin1_decode [0x41])
   \<and> encoding_loop offline ''d/f.csv'' ''f.csv'' [0x41] encodings
       = (ReturnTrue, [Write ''d/f.csv'' [0x41], Print (Saved ''f.csv'' Utf8)])
   \<and> fst (download_csv_direct_body offline ''u'' ''d'' ''f.csv'') \<noteq> Inr False"
proof -
  have "encoding_loop offline ''d/f.csv'' ''f.csv'' [0x41] encodings
       = (ReturnTrue, [Write ''d/f.csv'' [0x41], Print (Saved ''f.csv'' Utf8)])"
    by (simp add: offline_def encodings_def try_encoding_def write_text_def
        py_decode_ascii_A translate_newlines_def utf8_encode_A print_line_def can_print_def)
  with post_loop_return_unreachable
         [of "[0x41]" offline "''d/f.csv''" "''f.csv''" "''u''" "''d''" "''f.csv''"]
  show ?thesis by blast
qed

subsection \<open>One month of the loop\<close>

lemma process_month_skip:
  "month @ ''CSV'' \<in> existing \<Longrightarrow>
   process_month e path existing month c =
     ((Continue, c\<lparr>skipped := skipped c + 1\<rparr>), [Print (Skipping (month @ ''CSV.csv''))])"
  by (simp add: process_month_def)

lemma process_month_zip:
  "month @ ''CSV'' \<notin> existing \<Longrightarrow> file_exists e (zip_url month) = Inr True \<Longrightarrow>
   process_month e path existing month c =
     (case download_and_extract e (zip_url month) path (month @ ''CSV.zip'') of
        (Inl ex, evs) \<Rightarrow> ((Abort ex, c\<lparr>consecutive_404s := 0\<rparr>), Head (zip_url month) # evs)
      | (Inr ok, evs) \<Rightarrow>
          ((Continue, if ok then c\<lparr>consecutive_404s := 0, downloaded := downloaded c + 1\<rparr>
                      else c\<lparr>consecutive_404s := 0\<rparr>),
           Head (zip_url month) # evs))"
  by (simp add: process_month_def zip_url_def Let_def split: prod.splits sum.splits)

lemma process_month_csv:
  "month @ ''CSV'' \<notin> existing \<Longrightarrow> file_exists e (zip_url month) = Inr False \<Longrightarrow>
   file_exists e (csv_url month) = Inr True \<Longrightarrow>
   process_month e path existing month c =
     (case download_csv_direct e (csv_url month) path (month @ ''CSV.csv'') of
        (Inl ex, evs) \<Rightarrow>
          ((Abort ex, c\<lparr>consecutive_404s := 0\<rparr>),
           Head (zip_url month) # Head (csv_url month) # evs)
      | (Inr ok, evs) \<Rightarrow>
          ((Continue, if ok then c\<lparr>consecutive_404s := 0, downloaded := downloaded c + 1\<rparr>
                      else c\<lparr>consecutive_404s := 0\<rparr>),
           Head (zip_url month) # Head (csv_url month) # evs))"
  by (simp add: process_month_def zip_url_def csv_url_def Let_def split: prod.splits sum.splits)

lemma process_month_miss:
  "month @ ''CSV'' \<notin> existing \<Longrightarrow> file_exists e (zip_url month) = Inr False \<Longrightarrow>
   file_exists e (csv_url month) = Inr False \<Longrightarrow>
   process_month e path existing month c =
     (if consecutive_404s c + 1 \<ge> 3
      then ((Break, c\<lparr>consecutive_404s := consecutive_404s c + 1\<rparr>),
            [Head (zip_url month), Head (csv_url month), Print (NotFound (month @ ''CSV'')),
             Print (Stopping 3)])
      else ((Continue, c\<lparr>consecutive_404s := consecutive_404s c + 1\<rparr>),
            [Head (zip_url month), Head (csv_url month), Print (NotFound (month @ ''CSV''))]))"
  by (simp add: process_month_def zip_url_def csv_url_def Let_def max_consecutive_404s_def)

lemma process_month_zip_raises:
  "month @ ''CSV'' \<notin> existing \<Longrightarrow> file_exists e (zip_url month) = Inl ex \<Longrightarrow>
   process_month e path existing month c = ((Abort ex, c), [Head (zip_url month)])"
  by (simp add: process_month_def zip_url_def Let_def)

lemma process_month_csv_raises:
  "month @ ''CSV'' \<notin> existing \<Longrightarrow> file_exists e (zip_url month) = Inr False \<Longrightarrow>
   file_exists e (csv_url month) = Inl ex \<Longrightarrow>
   process_month e path existing month c =
     ((Abort ex, c), [Head (zip_url month), Head (csv_url month)])"
  by (simp add: process_month_def zip_url_def csv_url_def Let_def)

subsection \<open>Writes come after a decode\<close>

lemma writes_append [simp]: "writes (xs @ ys) = writes xs @ writes ys"
  by (simp add: writes_def)

lemma writes_Cons_Print [simp]: "writes (Print m # xs) = writes xs"
  by (simp add: writes_def)

lemma writes_Cons_Get [simp]: "writes (Get u # xs) = writes xs"
  by (simp add: writes_def)

lemma writes_Nil [simp]: "writes [] = []"
  by (simp add: writes_def)

lemma convert_to_utf8_writes:
  "writes (snd (convert_to_utf8 e p nm c)) \<noteq> [] \<Longrightarrow>
     \<exists>enc text. enc \<in> set encodings \<and> decode e enc c = Inr text"
  using encoding_loop_writes [of e p nm c encodings]
  by (auto simp: convert_to_utf8_def split: prod.splits loop_result.splits)

lemma convert_to_utf8_True_writes:
  "fst (convert_to_utf8 e p nm c) = Inr True \<Longrightarrow> writes (snd (convert_to_utf8 e p nm c)) \<noteq> []"
proof -
  assume a: "fst (convert_to_utf8 e p nm c) = Inr True"
  obtain r evs where l: "encoding_loop e p nm c encodings = (r, evs)"
    by (cases "encoding_loop e p nm c encodings")
  with a have r: "r = ReturnTrue"
    by (cases r) (auto simp: convert_to_utf8_def)
  from encoding_loop_ReturnTrue [OF l [unfolded r]] obtain bs pre m where
    "evs = pre @ [Write p bs, Print m]" by blast
  with l r show ?thesis
    by (simp add: convert_to_utf8_def writes_def)
qed

lemma download_csv_direct_writes:
  "writes (snd (download_csv_direct e url tp fn)) \<noteq> [] \<Longrightarrow>
     \<exists>status content enc text.
        http_get e url = Inr (status, content) \<and> raise_for_status status = Inr ()
        \<and> enc \<in> set encodings \<and> decode e enc content = Inr text"
proof -
  assume a: "writes (snd (download_csv_direct e url tp fn)) \<noteq> []"
  then have b: "writes (snd (download_csv_direct_body e url tp fn)) \<noteq> []"
    by (auto simp: download_csv_direct_def report_failure_def print_line_def
        split: prod.splits sum.splits if_splits)
  then obtain status content where
    g: "http_get e url = Inr (status, content)" "raise_for_status status = Inr ()"
    by (auto simp: download_csv_direct_body_def Let_def split: sum.splits prod.splits)
  with b have "writes (snd (convert_to_utf8 e (path_join tp fn) fn content)) \<noteq> []"
    by (auto simp: download_csv_direct_body_def Let_def split: prod.splits)
  from convert_to_utf8_writes [OF this] g show ?thesis by blast
qed

lemma download_and_extract_writes:
  "writes (snd (download_and_extract e url tp fn)) \<noteq> [] \<Longrightarrow>
     \<exists>status body content enc text.
        http_get e url = Inr (status, body) \<and> raise_for_status status = Inr ()
        \<and> zip_read e body (replace_zip_csv fn) = Inr content
        \<and> enc \<in> set encodings \<and> decode e enc content = Inr text"
proof -
  assume a: "writes (snd (download_and_extract e url tp fn)) \<noteq> []"
  then have b: "writes (snd (download_and_extract_body e url tp fn)) \<noteq> []"
    by (auto simp: download_and_extract_def report_failure_def print_line_def
        split: prod.splits sum.splits if_splits)
  then obtain status body content where
    g: "http_get e url = Inr (status, body)" "raise_for_status status = Inr ()"
       "zip_read e body (replace_zip_csv fn) = Inr content"
    by (auto simp: download_and_extract_body_def Let_def split: sum.splits prod.splits)
  with b have "writes (snd (convert_to_utf8 e (path_join tp (replace_zip_csv fn))
                              (replace_zip_csv fn) content)) \<noteq> []"
    by (auto simp: download_and_extract_body_def Let_def split: prod.splits)
  from convert_to_utf8_writes [OF this] g show ?thesis by blast
qed

lemma download_csv_direct_True_writes:
  "fst (download_csv_direct e url tp fn) = Inr True \<Longrightarrow>
     writes (snd (download_csv_direct e url tp fn)) \<noteq> []"
proof -
  assume a: "fst (download_csv_direct e url tp fn) = Inr True"
  then have b: "fst (download_csv_direct_body e url tp fn) = Inr True"
    and c: "snd (download_csv_direct e url tp fn) = snd (download_csv_direct_body e url tp fn)"
    by (auto simp: download_csv_direct_def report_failure_def print_line_def
        split: prod.splits sum.splits if_splits)
  from b obtain status content where
    g: "http_get e url = Inr (status, content)" "raise_for_status status = Inr ()"
    by (auto simp: download_csv_direct_body_def Let_def split: sum.splits prod.splits)
  with b have "fst (convert_to_utf8 e (path_join tp fn) fn content) = Inr True"
    by (auto simp: download_csv_direct_body_def Let_def split: prod.splits)
  from convert_to_utf8_True_writes [OF this] g c show ?thesis
    by (auto simp: download_csv_direct_body_def Let_def split: prod.splits)
qed

lemma download_and_extract_True_writes:
  "fst (download_and_extract e url tp fn) = Inr True \<Longrightarrow>
     writes (snd (download_and_extract e url tp fn)) \<noteq> []"
proof -
  assume a: "fst (download_and_extract e url tp fn) = Inr True"
  then have b: "fst (download_and_extract_body e url tp fn) = Inr True"
    and c: "snd (download_and_extract e url tp fn) = snd (download_and_extract_body e url tp fn)"
    by (auto simp: download_and_extract_def report_failure_def print_line_def
        split: prod.splits sum.splits if_splits)
  from b obtain status body content where
    g: "http_get e url = Inr (status, body)" "raise_for_status status = Inr ()"
       "zip_read e body (replace_zip_csv fn) = Inr content"
    by (auto simp: download_and_extract_body_def Let_def split: sum.splits prod.splits)
  with b have "fst (convert_to_utf8 e (path_join tp (replace_zip_csv fn))
                      (replace_zip_csv fn) content) = Inr True"
    by (auto simp: download_and_extract_body_def Let_def split: prod.splits)
  from convert_to_utf8_True_writes [OF this] g c show ?thesis
    by (auto simp: download_and_extract_body_def Let_def split: prod.splits)
qed

lemma raise_for_status_error:
  "400 \<le> status \<Longrightarrow> status < 600 \<Longrightarrow> raise_for_status status \<noteq> Inr ()"
  by (simp add: raise_for_status_def)

lemma encoding_loop_attempts_fail:
  "decode_attempts_fail e c encs \<Longrightarrow>
     writes (snd (encoding_loop e p nm c encs)) = [] \<and> fst (encoding_loop e p nm c encs) \<noteq> ReturnTrue"
proof (induction encs)
  case Nil
  then show ?case by simp
next
  case (Cons enc encs)
  from Cons.prems obtain ex where d: "decode e enc c = Inl ex"
    by (auto split: sum.splits)
  then have t: "try_encoding e p nm c enc = (Inl ex, [])"
    by (rule try_encoding_decode_fails)
  show ?case
  proof (cases "is_UnicodeError ex \<and> enc \<noteq> Latin1")
    case True
    with Cons.prems d have "decode_attempts_fail e c encs" by simp
    with Cons.IH t True show ?thesis by (auto split: prod.splits)
  next
    case False
    with t show ?thesis by auto
  qed
qed

lemma convert_to_utf8_attempts_fail:
  "decode_attempts_fail e c encodings \<Longrightarrow>
     writes (snd (convert_to_utf8 e p nm c)) = [] \<and> fst (convert_to_utf8 e p nm c) \<noteq> Inr True"
  using encoding_loop_attempts_fail [of e c encodings p nm]
  by (auto simp: convert_to_utf8_def split: prod.splits loop_result.splits)

lemma download_csv_direct_attempts_fail:
  assumes "http_get e url = Inr (status, content)" and "decode_attempts_fail e content encodings"
  shows "writes (snd (download_csv_direct e url tp fn)) = []
     \<and> fst (download_csv_direct e url tp fn) \<noteq> Inr True"
proof -
  from convert_to_utf8_attempts_fail [OF assms(2), of "path_join tp fn" fn] assms(1)
  have "writes (snd (download_csv_direct_body e url tp fn)) = []
     \<and> fst (download_csv_direct_body e url tp fn) \<noteq> Inr True"
    by (auto simp: download_csv_direct_body_def Let_def split: sum.splits prod.splits)
  then show ?thesis
    by (auto simp: download_csv_direct_def report_failure_def print_line_def
        split: prod.splits sum.splits if_splits)
qed

lemma download_and_extract_attempts_fail:
  assumes "http_get e url = Inr (status, body)"
    and "zip_read e body (replace_zip_csv fn) = Inr content"
    and "decode_attempts_fail e content encodings"
  shows "writes (snd (download_and_extract e url tp fn)) = []
     \<and> fst (download_and_extract e url tp fn) \<noteq> Inr True"
proof -
  from convert_to_utf8_attempts_fail
         [OF assms(3), of "path_join tp (replace_zip_csv fn)" "replace_zip_csv fn"] assms(1,2)
  have "writes (snd (download_and_extract_body e url tp fn)) = []
     \<and> fst (download_and_extract_body e url tp fn) \<noteq> Inr True"
    by (auto simp: download_and_extract_body_def Let_def split: sum.splits prod.splits)
  then show ?thesis
    by (auto simp: download_and_extract_def report_failure_def print_line_def
        split: prod.splits sum.splits if_splits)
qed

text \<open>
  C10, as the code has it.  In both fetchers the target file is touched only after a
  decode has succeeded.  If the trace of a fetch contains a write, completed or failed,
  then the download returned a body with a status that \<open>raise_for_status\<close> accepts, the
  archive (for the zip variant) yielded the entry, and one of the three encodings
  decoded the content.  A fetch that returns true has written.  Hence a fetch that
  fails earlier (the request raises, the status is an error status from 400 to 599,
  the archive cannot be read, or no candidate that the loop attempts decodes) writes
  nothing and does not return true.  A status outside 2xx that is not an error status
  is not among these failures.
\<close>

theorem no_write_before_decode:
  "(writes (snd (download_csv_direct e url target_path filename)) \<noteq> [] \<longrightarrow>
      (\<exists>status content enc text.
         http_get e url = Inr (status, content) \<and> raise_for_status status = Inr ()
         \<and> enc \<in> set encodings \<and> decode e enc content = Inr text))
   \<and> (writes (snd (download_and_extract e url target_path filename)) \<noteq> [] \<longrightarrow>
      (\<exists>status body content enc text.
         http_get e url = Inr (status, body) \<and> raise_for_status status = Inr ()
         \<and> zip_read e body (replace_zip_csv filename) = Inr content
         \<and> enc \<in> set encodings \<and> decode e enc content = Inr text))
   \<and> (fst (download_csv_direct e url target_path filename) = Inr True \<longrightarrow>
        writes (snd (download_csv_direct e url target_path filename)) \<noteq> [])
   \<and> (fst (download_and_extract e url target_path filename) = Inr True \<longrightarrow>
        writes (snd (download_and_extract e url target_path filename)) \<noteq> [])
   \<and> ((\<exists>ex. http_get e url = Inl ex)
        \<or> (\<exists>status body. http_get e url = Inr (status, body) \<and> 400 \<le> status \<and> status < 600)
        \<or> (\<exists>status content. http_get e url = Inr (status, content)
              \<and> decode_attempts_fail e content encodings) \<longrightarrow>
        writes (snd (download_csv_direct e url target_path filename)) = []
        \<and> fst (download_csv_direct e url target_path filename) \<noteq> Inr True)
   \<and> ((\<exists>ex. http_get e url = Inl ex)
        \<or> (\<exists>status body. http_get e url = Inr (status, body) \<and> 400 \<le> status \<and> status < 600)
        \<or> (\<exists>status body ex. http_get e url = Inr (status, body)
              \<and> zip_read e body (replace_zip_csv filename) = Inl ex)
        \<or> (\<exists>status body content. http_get e url = Inr (status, body)
              \<and> zip_read e body (replace_zip_csv filename) = Inr content
              \<and> decode_attempts_fail e content encodings) \<longrightarrow>
        writes (snd (download_and_extract e url target_path filename)) = []
        \<and> fst (download_and_extract e url target_path filename) \<noteq> Inr True)"
proof -
  let ?d = "download_csv_direct e url target_path filename"
  let ?z = "download_and_extract e url target_path filename"
  note d1 = download_csv_direct_writes [of e url target_path filename]
  note z1 = download_and_extract_writes [of e url target_path filename]
  note d2 = download_csv_direct_True_writes [of e url target_path filename]
  note z2 = download_and_extract_True_writes [of e url target_path filename]
  have d3: "writes (snd ?d) = [] \<and> fst ?d \<noteq> Inr True"
    if "(\<exists>ex. http_get e url = Inl ex)
        \<or> (\<exists>status body. http_get e url = Inr (status, body) \<and> 400 \<le> status \<and> status < 600)"
  proof -
    have "writes (snd ?d) = []"
    proof (rule ccontr)
      assume "writes (snd ?d) \<noteq> []"
      from d1 [OF this] obtain status content where
        "http_get e url = Inr (status, content)" "raise_for_status status = Inr ()"
        by blast
      with that raise_for_status_error [of status] show False by fastforce
    qed
    with d2 show ?thesis by auto
  qed
  have z3: "writes (snd ?z) = [] \<and> fst ?z \<noteq> Inr True"
    if "(\<exists>ex. http_get e url = Inl ex)
        \<or> (\<exists>status body. http_get e url = Inr (status, body) \<and> 400 \<le> status \<and> status < 600)
        \<or> (\<exists>status body ex. http_get e url = Inr (status, body)
              \<and> zip_read e body (replace_zip_csv filename) = Inl ex)"
  proof -
    have "writes (snd ?z) = []"
    proof (rule ccontr)
      assume "writes (snd ?z) \<noteq> []"
      from z1 [OF this] obtain status body content where
        "http_get e url = Inr (status, body)" "raise_for_status status = Inr ()"
        "zip_read e body (replace_zip_csv filename) = Inr content"
        by blast
      with that raise_for_status_error [of status] show False by fastforce
    qed
    with z2 show ?thesis by auto
  qed
  note d4 = download_csv_direct_attempts_fail [of e url _ _ target_path filename]
  note z4 = download_and_extract_attempts_fail [of e url _ _ filename _ target_path]
  show ?thesis
    using d1 z1 d2 z2 d3 z3 d4 z4 by blast
qed

theorem no_write_before_decode_witness:
  "writes (snd (download_csv_direct offline ''u'' ''d'' ''f.csv'')) = []
   \<and> fst (download_csv_direct offline ''u'' ''d'' ''f.csv'') = Inr False
   \<and> writes (snd (download_and_extract offline ''u'' ''d'' ''f.zip'')) = []
   \<and> fst (download_and_extract offline ''u'' ''d'' ''f.zip'') = Inr False
   \<and> http_get offline ''u'' = Inl (RequestException ConnectionError)
   \<and> download_csv_direct served ''u'' ''d'' ''f.csv'' =
       (Inr True,
        [Print (Downloading ''f.csv''), Get ''u'', Write ''d/f.csv'' [0x41],
         Print (Saved ''f.csv'' Utf8)])
   \<and> decode served Utf8 [0x41] = Inr [0x41]"
proof -
  have 1: "download_csv_direct offline ''u'' ''d'' ''f.csv'' =
      (Inr False,
       [Print (Downloading ''f.csv''), Get ''u'',
        Print (FailedToDownload ''f.csv'' (RequestException ConnectionError))])"
    by (simp add: download_csv_direct_def download_csv_direct_body_def offline_def
        report_failure_def print_line_def can_print_def)
  have 2: "download_and_extract offline ''u'' ''d'' ''f.zip'' =
      (Inr False,
       [Print (Downloading ''f.zip''), Get ''u'',
        Print (FailedToDownload ''f.zip'' (RequestException ConnectionError))])"
    by (simp add: download_and_extract_def download_and_extract_body_def offline_def
        report_failure_def print_line_def can_print_def)
  have 3: "download_csv_direct served ''u'' ''d'' ''f.csv'' =
       (Inr True,
        [Print (Downloading ''f.csv''), Get ''u'', Write ''d/f.csv'' [0x41],
         Print (Saved ''f.csv'' Utf8)])"
    by (simp add: download_csv_direct_def download_csv_direct_body_def served_def offline_def
        raise_for_status_def convert_to_utf8_def encodings_def try_encoding_def
        write_text_def py_decode_ascii_A translate_newlines_def utf8_encode_A path_join_def
        print_line_def can_print_def)
  show ?thesis
    using no_write_before_decode [of offline "''u''" "''d''" "''f.csv''"]
      no_write_before_decode [of offline "''u''" "''d''" "''f.zip''"]
      no_write_before_decode [of served "''u''" "''d''" "''f.csv''"] 1 2 3
    by (simp add: offline_def served_def py_decode_ascii_A)
qed

text \<open>
  The claim as the specification words it counts every response outside 2xx among the
  failures that write nothing.  A response with status 304 is outside 2xx, yet
  \<open>raise_for_status\<close> does not raise for it: the body is decoded and written, and the
  fetcher returns true.
\<close>

theorem non_2xx_counterexample:
  "http_get not_modified ''u'' = Inr (304, [0x41])
   \<and> raise_for_status 304 = Inr ()
   \<and> download_csv_direct not_modified ''u'' ''d'' ''f.csv'' =
       (Inr True,
        [Print (Downloading ''f.csv''), Get ''u'', Write ''d/f.csv'' [0x41],
         Print (Saved ''f.csv'' Utf8)])"
  by (simp add: download_csv_direct_def download_csv_direct_body_def not_modified_def
      offline_def raise_for_status_def convert_to_utf8_def encodings_def try_encoding_def
      write_text_def py_decode_ascii_A translate_newlines_def utf8_encode_A path_join_def
      print_line_def can_print_def)

subsection \<open>The codecs\<close>

lemma pack2: "y < 64 \<Longrightarrow> (x * 64 + y) div 64 = (x::nat) \<and> (x * 64 + y) mod 64 = y"
  by simp

lemma pack3:
  assumes "y < 64" "z < 64"
  shows "((x * 64 + y) * 64 + z) div 4096 = (x::nat)
   \<and> ((x * 64 + y) * 64 + z) div 64 mod 64 = y
   \<and> ((x * 64 + y) * 64 + z) mod 64 = z"
proof -
  let ?m = "x * 64 + y"
  let ?n = "?m * 64 + z"
  note m = pack2 [OF assms(1), of x]
  note n = pack2 [OF assms(2), of ?m]
  have "?n div 4096 = ?n div 64 div 64"
    using div_mult2_eq [of ?n 64 64] by simp
  with m n show ?thesis by (simp only:)
qed

lemma pack4:
  assumes "y < 64" "z < 64" "w < 64"
  shows "(((x * 64 + y) * 64 + z) * 64 + w) div 262144 = (x::nat)
   \<and> (((x * 64 + y) * 64 + z) * 64 + w) div 4096 mod 64 = y
   \<and> (((x * 64 + y) * 64 + z) * 64 + w) div 64 mod 64 = z
   \<and> (((x * 64 + y) * 64 + z) * 64 + w) mod 64 = w"
proof -
  let ?m = "(x * 64 + y) * 64 + z"
  let ?n = "?m * 64 + w"
  note m = pack3 [OF assms(1,2), of x]
  note n = pack2 [OF assms(3), of ?m]
  have a: "?n div 262144 = ?n div 64 div 4096"
    using div_mult2_eq [of ?n 64 4096] by simp
  have b: "?n div 4096 = ?n div 64 div 64"
    using div_mult2_eq [of ?n 64 64] by simp
  from m n show ?thesis unfolding a b by (simp only:)
qed

lemma enc1_two:
  assumes "0xC2 \<le> a" "a < 0xE0" "is_cont b"
  shows "utf8_enc1 ((a - 0xC0) * 64 + (b - 0x80)) = Some [a, b]"
proof -
  define x y where "x = a - 0xC0" and "y = b - 0x80"
  with assms have r: "2 \<le> x" "x < 32" "y < 64" "a = 0xC0 + x" "b = 0x80 + y"
    by (auto simp: is_cont_def)
  then have "128 \<le> x * 64 + y" "x * 64 + y < 2048" by auto
  with pack2 [OF r(3), of x] show ?thesis
    unfolding x_def [symmetric] y_def [symmetric] r(4,5)
    by (simp add: utf8_enc1_def)
qed

lemma enc1_three_packed:
  assumes "x < 16" "y < 64" "z < 64" "x = 0 \<longrightarrow> 32 \<le> y" "x = 13 \<longrightarrow> y < 32"
  shows "utf8_enc1 ((x * 64 + y) * 64 + z) = Some [0xE0 + x, 0x80 + y, 0x80 + z]"
proof -
  define n where "n = (x * 64 + y) * 64 + z"
  have n: "n = 4096 * x + 64 * y + z" by (simp add: n_def)
  from assms have lo: "\<not> n < 2048" unfolding n by (cases "x = 0") auto
  from assms have hi: "n < 65536" unfolding n by linarith
  consider "x \<le> 12" | "x = 13" | "14 \<le> x" by linarith
  then have ns: "\<not> (55296 \<le> n \<and> n \<le> 57343)"
  proof cases
    case 1
    with assms show ?thesis unfolding n by linarith
  next
    case 2
    with assms show ?thesis unfolding n by linarith
  next
    case 3
    with assms show ?thesis unfolding n by linarith
  qed
  from lo have lo1: "\<not> n < 128" by linarith
  from pack3 [OF assms(2,3), of x]
  have p: "n div 4096 = x" "n div 64 mod 64 = y" "n mod 64 = z"
    unfolding n_def by simp_all
  have "utf8_enc1 n = Some [0xE0 + x, 0x80 + y, 0x80 + z]"
    unfolding utf8_enc1_def using lo lo1 hi ns p by (simp only: if_False if_True)
  then show ?thesis unfolding n_def .
qed

lemma enc1_four_packed:
  assumes "x < 5" "y < 64" "z < 64" "w < 64" "x = 0 \<longrightarrow> 16 \<le> y" "x = 4 \<longrightarrow> y < 16"
  shows "utf8_enc1 (((x * 64 + y) * 64 + z) * 64 + w)
           = Some [0xF0 + x, 0x80 + y, 0x80 + z, 0x80 + w]"
proof -
  define n where "n = ((x * 64 + y) * 64 + z) * 64 + w"
  have n: "n = 262144 * x + 4096 * y + 64 * z + w" by (simp add: n_def)
  from assms have lo: "\<not> n < 65536" unfolding n by (cases "x = 0") auto
  consider "x \<le> 3" | "x = 4" using assms(1) by linarith
  then have hi: "n < 1114112"
  proof cases
    case 1
    with assms show ?thesis unfolding n by linarith
  next
    case 2
    with assms show ?thesis unfolding n by linarith
  qed
  from lo have lo1: "\<not> n < 128" and lo2: "\<not> n < 2048" by linarith+
  from pack4 [OF assms(2,3,4), of x]
  have p: "n div 262144 = x" "n div 4096 mod 64 = y" "n div 64 mod 64 = z" "n mod 64 = w"
    unfolding n_def by simp_all
  have "utf8_enc1 n = Some [0xF0 + x, 0x80 + y, 0x80 + z, 0x80 + w]"
    unfolding utf8_enc1_def using lo lo1 lo2 hi p by (simp only: if_False if_True)
  then show ?thesis unfolding n_def .
qed

lemma enc1_three:
  assumes "0xE0 \<le> a" "a < 0xF0" "second_ok a b" "is_cont c"
  shows "utf8_enc1 (((a - 0xE0) * 64 + (b - 0x80)) * 64 + (c - 0x80)) = Some [a, b, c]"
proof -
  from assms have bc: "is_cont b"
    by (auto simp: second_ok_def is_cont_def split: if_splits)
  from assms bc have r: "a - 0xE0 < 16" "b - 0x80 < 64" "c - 0x80 < 64"
    by (auto simp: is_cont_def)
  from assms(1-3) have s: "a - 0xE0 = 0 \<longrightarrow> 32 \<le> b - 0x80" "a - 0xE0 = 13 \<longrightarrow> b - 0x80 < 32"
    by (auto simp: second_ok_def split: if_splits)
  from assms bc have e: "0xE0 + (a - 0xE0) = a" "0x80 + (b - 0x80) = b" "0x80 + (c - 0x80) = c"
    by (auto simp: is_cont_def)
  from enc1_three_packed [OF r s] show ?thesis
    unfolding e .
qed

lemma enc1_four:
  assumes "0xF0 \<le> a" "a < 0xF5" "second_ok a b" "is_cont c" "is_cont d"
  shows "utf8_enc1 ((((a - 0xF0) * 64 + (b - 0x80)) * 64 + (c - 0x80)) * 64 + (d - 0x80))
           = Some [a, b, c, d]"
proof -
  from assms have bc: "is_cont b"
    by (auto simp: second_ok_def is_cont_def split: if_splits)
  from assms bc have r: "a - 0xF0 < 5" "b - 0x80 < 64" "c - 0x80 < 64" "d - 0x80 < 64"
    by (auto simp: is_cont_def)
  from assms(1-3) have s: "a - 0xF0 = 0 \<longrightarrow> 16 \<le> b - 0x80" "a - 0xF0 = 4 \<longrightarrow> b - 0x80 < 16"
    by (auto simp: second_ok_def split: if_splits)
  from assms bc have e: "0xF0 + (a - 0xF0) = a" "0x80 + (b - 0x80) = b"
    "0x80 + (c - 0x80) = c" "0x80 + (d - 0x80) = d"
    by (auto simp: is_cont_def)
  from enc1_four_packed [OF r s] show ?thesis
    unfolding e .
qed

lemma utf8_roundtrip: "utf8_dec bs = Some t \<Longrightarrow> utf8_enc t = Some bs"
proof (induction bs arbitrary: t rule: utf8_dec.induct)
  case 1
  then show ?case by simp
next
  case (2 a bs)
  consider (one) "a < 0x80" | (bad) "0x80 \<le> a" "a < 0xC2" | (two) "0xC2 \<le> a" "a < 0xE0"
    | (three) "0xE0 \<le> a" "a < 0xF0" | (four) "0xF0 \<le> a" "a < 0xF5" | (high) "0xF5 \<le> a"
    by linarith
  then show ?case
  proof cases
    case one
    with "2.prems" obtain t' where t: "utf8_dec bs = Some t'" "t = a # t'"
      by auto
    with "2.IH"(1) [OF one] one show ?thesis
      by (simp add: utf8_enc1_def)
  next
    case bad
    with "2.prems" show ?thesis by simp
  next
    case two
    with "2.prems" obtain b r t' where
      t: "bs = b # r" "is_cont b" "utf8_dec r = Some t'"
         "t = ((a - 0xC0) * 64 + (b - 0x80)) # t'"
      by (auto split: list.splits if_splits)
    from two have n: "\<not> a < 0x80" "\<not> a < 0xC2" by linarith+
    from "2.IH"(2) [OF n two(2) t(1,2,3)] enc1_two [OF two t(2)] t show ?thesis
      by simp
  next
    case three
    with "2.prems" obtain b c r t' where
      t: "bs = b # c # r" "second_ok a b \<and> is_cont c" "utf8_dec r = Some t'"
         "t = (((a - 0xE0) * 64 + (b - 0x80)) * 64 + (c - 0x80)) # t'"
      by (auto split: list.splits if_splits)
    from three have n: "\<not> a < 0x80" "\<not> a < 0xC2" "\<not> a < 0xE0" by linarith+
    from t(1) have bs: "bs = b # c # r" "c # r = c # r" by simp_all
    from "2.IH"(3) [OF n three(2) bs t(2,3)] enc1_three [OF three] t show ?thesis
      by simp
  next
    case four
    with "2.prems" obtain b c d r t' where
      t: "bs = b # c # d # r" "second_ok a b \<and> is_cont c \<and> is_cont d" "utf8_dec r = Some t'"
         "t = ((((a - 0xF0) * 64 + (b - 0x80)) * 64 + (c - 0x80)) * 64 + (d - 0x80)) # t'"
      by (auto split: list.splits if_splits)
    from four have n: "\<not> a < 0x80" "\<not> a < 0xC2" "\<not> a < 0xE0" "\<not> a < 0xF0" by linarith+
    from t(1) have bs: "bs = b # c # d # r" "c # d # r = c # d # r" "d # r = d # r" by simp_all
    from "2.IH"(4) [OF n four(2) bs t(2,3)] enc1_four [OF four] t show ?thesis
      by simp
  next
    case high
    with "2.prems" show ?thesis by simp
  qed
qed

lemma utf8_decode_encode:
  "utf8_decode content = Some t \<Longrightarrow> utf8_encode t = Some content"
proof -
  assume "utf8_decode content = Some t"
  then have "utf8_enc t = Some (map unat content)"
    by (simp add: utf8_decode_def utf8_roundtrip)
  moreover have "map (of_nat :: nat \<Rightarrow> byte) (map unat content) = content"
    by (induction content) simp_all
  ultimately show ?thesis
    by (simp add: utf8_encode_def)
qed

lemma utf8_enc1_None: "utf8_enc1 cp = None \<longleftrightarrow> \<not> scalar_value cp"
  by (auto simp: utf8_enc1_def scalar_value_def)

lemma utf8_enc1_Some: "utf8_enc1 cp = Some bs \<Longrightarrow> scalar_value cp"
  using utf8_enc1_None [of cp] by auto

lemma utf8_enc_None: "utf8_enc t = None \<longleftrightarrow> (\<exists>cp \<in> set t. \<not> scalar_value cp)"
  by (induction t) (auto simp: utf8_enc1_None split: option.splits dest: utf8_enc1_Some)

lemma utf8_encode_None: "utf8_encode t = None \<longleftrightarrow> (\<exists>cp \<in> set t. \<not> scalar_value cp)"
  by (simp add: utf8_encode_def utf8_enc_None)

lemma utf8_decoded_scalar:
  "utf8_decode content = Some t \<Longrightarrow> \<forall>cp \<in> set t. scalar_value cp"
  using utf8_decode_encode [of content t] utf8_encode_None [of t] by auto

lemma cp1252_table_small: "\<forall>x \<in> set cp1252_table. \<forall>cp. x = Some cp \<longrightarrow> cp < 0xD800"
  by (simp add: cp1252_table_def)

lemma cp1252_byte_scalar:
  assumes "cp1252_byte n = Some cp" and "n < 256"
  shows "scalar_value cp"
proof (cases "n < 0x80 \<or> 0xA0 \<le> n")
  case True
  with assms show ?thesis by (auto simp: cp1252_byte_def scalar_value_def)
next
  case False
  moreover have "length cp1252_table = 32" by (simp add: cp1252_table_def)
  ultimately have "n - 0x80 < length cp1252_table" by linarith
  then have "cp1252_table ! (n - 0x80) \<in> set cp1252_table" by (rule nth_mem)
  with assms False cp1252_table_small show ?thesis
    by (auto simp: cp1252_byte_def scalar_value_def)
qed

lemma those_Some_set:
  "those xs = Some ys \<Longrightarrow> y \<in> set ys \<Longrightarrow> Some y \<in> set xs"
  by (induction xs arbitrary: ys) (auto split: option.splits)

lemma unat_byte_less: "unat (b :: byte) < 256"
  using unsigned_less [of b, where ?'a = nat] by simp

lemma cp1252_decoded_scalar:
  assumes "cp1252_decode content = Some t"
  shows "\<forall>cp \<in> set t. scalar_value cp"
proof
  fix cp assume "cp \<in> set t"
  with assms have "Some cp \<in> set (map (\<lambda>b. cp1252_byte (unat b)) content)"
    by (auto simp: cp1252_decode_def dest: those_Some_set)
  then obtain b :: byte where "cp1252_byte (unat b) = Some cp" by force
  then show "scalar_value cp"
    using cp1252_byte_scalar unat_byte_less by blast
qed

lemma latin1_decoded_scalar: "\<forall>cp \<in> set (latin1_decode content). scalar_value cp"
proof
  fix cp assume "cp \<in> set (latin1_decode content)"
  then obtain b :: byte where "cp = unat b" by (auto simp: latin1_decode_def)
  with unat_byte_less [of b] show "scalar_value cp" by (simp add: scalar_value_def)
qed

lemma py_decoded_scalar:
  "py_decode enc content = Inr t \<Longrightarrow> \<forall>cp \<in> set t. scalar_value cp"
  using utf8_decoded_scalar cp1252_decoded_scalar latin1_decoded_scalar
  by (cases enc) (auto simp: py_decode_def split: option.splits)

lemma translate_newlines_scalar:
  assumes "\<forall>cp \<in> set sep. cp < 0x80" and "\<forall>cp \<in> set t. scalar_value cp"
  shows "\<forall>cp \<in> set (translate_newlines sep t). scalar_value cp"
  using assms by (auto simp: translate_newlines_def scalar_value_def split: if_splits)

lemma translate_newlines_lf [simp]: "translate_newlines [10] t = t"
  by (induction t) (simp_all add: translate_newlines_def)

lemma translate_newlines_no_lf: "10 \<notin> set t \<Longrightarrow> translate_newlines sep t = t"
  by (induction t) (simp_all add: translate_newlines_def)

lemma py_text_encodable:
  assumes "py_decode enc content = Inr t" and "\<forall>cp \<in> set sep. cp < 0x80"
  shows "\<exists>bs. utf8_encode (translate_newlines sep t) = Some bs"
  using translate_newlines_scalar [OF assms(2) py_decoded_scalar [OF assms(1)]]
    utf8_encode_None [of "translate_newlines sep t"]
  by auto

subsection \<open>The decoding stage\<close>

lemma try_encoding_ok:
  assumes "decode e enc content = Inr t" and "disk_open e p = None"
    and "utf8_encode (translate_newlines (linesep e) t) = Some bs"
    and "disk_flush e p bs = None"
    and "can_print (console e) (Saved nm enc)"
  shows "try_encoding e p nm content enc = (Inr (), [Write p bs, Print (Saved nm enc)])"
  using assms by (simp add: try_encoding_def write_text_def print_line_def)

lemma can_print_Saved [simp]: "can_print k (Saved nm enc) = encodes k 0x2713"
  by (simp add: can_print_def)

lemma can_print_failure [simp]:
  "can_print k (FailedToDownload nm ex) = encodes k 0x2717"
  "can_print k (InvalidZip nm) = encodes k 0x2717"
  "can_print k (FailedToProcess nm ex) = encodes k 0x2717"
  by (simp_all add: can_print_def)

lemma convert_utf8:
  assumes "decode e Utf8 content = Inr t" and "disk_open e p = None"
    and "utf8_encode (translate_newlines (linesep e) t) = Some bs"
    and "disk_flush e p bs = None" and "encodes (console e) 0x2713"
  shows "convert_to_utf8 e p nm content = (Inr True, [Write p bs, Print (Saved nm Utf8)])"
  using try_encoding_ok [OF assms(1-4), of nm] assms(5)
  by (simp add: convert_to_utf8_def encodings_def)

lemma convert_cp1252:
  assumes "decode e Utf8 content = Inl UnicodeDecodeError"
    and "decode e Cp1252 content = Inr t" and "disk_open e p = None"
    and "utf8_encode (translate_newlines (linesep e) t) = Some bs"
    and "disk_flush e p bs = None" and "encodes (console e) 0x2713"
  shows "convert_to_utf8 e p nm content = (Inr True, [Write p bs, Print (Saved nm Cp1252)])"
  using try_encoding_ok [OF assms(2-5), of nm] try_encoding_decode_fails [OF assms(1), of p nm]
    assms(6)
  by (simp add: convert_to_utf8_def encodings_def)

lemma convert_latin1:
  assumes "decode e Utf8 content = Inl UnicodeDecodeError"
    and "decode e Cp1252 content = Inl UnicodeDecodeError"
    and "decode e Latin1 content = Inr t" and "disk_open e p = None"
    and "utf8_encode (translate_newlines (linesep e) t) = Some bs"
    and "disk_flush e p bs = None" and "encodes (console e) 0x2713"
  shows "convert_to_utf8 e p nm content = (Inr True, [Write p bs, Print (Saved nm Latin1)])"
  using try_encoding_ok [OF assms(3-6), of nm] try_encoding_decode_fails [OF assms(1), of p nm]
    try_encoding_decode_fails [OF assms(2), of p nm] assms(7)
  by (simp add: convert_to_utf8_def encodings_def)

lemma decode_examples:
  "utf8_decode [0x0A] = Some [10]"
  "utf8_decode [0xE9] = None" "cp1252_decode [0xE9] = Some [0xE9]"
  "utf8_decode [0x81] = None" "cp1252_decode [0x81] = None" "latin1_decode [0x81] = [0x81]"
  "utf8_decode [0xC3, 0xA9] = Some [0xE9]"
  by (simp_all add: utf8_decode_def cp1252_decode_def cp1252_byte_def cp1252_table_def
      latin1_decode_def is_cont_def)

lemma encode_examples:
  "utf8_encode [10] = Some [0x0A]" "utf8_encode [13, 10] = Some [0x0D, 0x0A]"
  "utf8_encode [0xE9] = Some [0xC3, 0xA9]" "utf8_encode [0x81] = Some [0xC2, 0x81]"
  by (simp_all add: utf8_encode_def utf8_enc1_def)

text \<open>
  C3, as the code has it.  With the codecs of CPython, a disk that accepts the write, an
  ASCII line separator and a console that can print the line with the mark U+2713,
  the decoding stage of either fetcher accepts the first of
  utf-8, cp1252, latin-1 that decodes the content, writes the decoded text and returns
  true: utf-8 when the content is valid UTF-8, else cp1252 when that decodes, else
  latin-1.  What reaches the file is the UTF-8 encoding of the text after
  \<open>write_text\<close> has replaced every \<open>'\n'\<close> by the line separator of the platform.
  For valid UTF-8 input, re-encoding the decoded text gives the input back, and the
  written bytes are the input itself when the line separator is \<open>'\n'\<close> or the text
  has no \<open>'\n'\<close>.
\<close>

theorem first_decodable_encoding_written:
  assumes "decode e = py_decode" and "disk_open e csv_path = None"
    and "\<forall>bs. disk_flush e csv_path bs = None" and "\<forall>cp \<in> set (linesep e). cp < 0x80"
    and "encodes (console e) 0x2713"
  shows "(\<forall>t. utf8_decode content = Some t \<longrightarrow>
            (\<exists>bs. utf8_encode (translate_newlines (linesep e) t) = Some bs
               \<and> convert_to_utf8 e csv_path name content
                   = (Inr True, [Write csv_path bs, Print (Saved name Utf8)]))
            \<and> utf8_encode t = Some content
            \<and> (linesep e = [10] \<or> 10 \<notin> set t \<longrightarrow>
                 convert_to_utf8 e csv_path name content
                   = (Inr True, [Write csv_path content, Print (Saved name Utf8)])))
     \<and> (\<forall>t. utf8_decode content = None \<and> cp1252_decode content = Some t \<longrightarrow>
            (\<exists>bs. utf8_encode (translate_newlines (linesep e) t) = Some bs
               \<and> convert_to_utf8 e csv_path name content
                   = (Inr True, [Write csv_path bs, Print (Saved name Cp1252)])))
     \<and> (utf8_decode content = None \<and> cp1252_decode content = None \<longrightarrow>
            (\<exists>bs. utf8_encode (translate_newlines (linesep e) (latin1_decode content)) = Some bs
               \<and> convert_to_utf8 e csv_path name content
                   = (Inr True, [Write csv_path bs, Print (Saved name Latin1)])))"
proof (intro conjI allI impI)
  fix t assume u: "utf8_decode content = Some t"
  then have d: "decode e Utf8 content = Inr t"
    by (simp add: assms(1) py_decode_def)
  from py_text_encodable [OF d [unfolded assms(1)] assms(4)] obtain bs where
    bs: "utf8_encode (translate_newlines (linesep e) t) = Some bs" by blast
  from convert_utf8 [OF d assms(2) bs _ assms(5)] assms(3) bs
  show "\<exists>bs. utf8_encode (translate_newlines (linesep e) t) = Some bs
          \<and> convert_to_utf8 e csv_path name content
              = (Inr True, [Write csv_path bs, Print (Saved name Utf8)])"
    by blast
  show r: "utf8_encode t = Some content"
    by (rule utf8_decode_encode [OF u])
  assume "linesep e = [10] \<or> 10 \<notin> set t"
  then have "translate_newlines (linesep e) t = t"
    by (auto simp: translate_newlines_no_lf)
  with r have "utf8_encode (translate_newlines (linesep e) t) = Some content" by simp
  from convert_utf8 [OF d assms(2) this _ assms(5)] assms(3)
  show "convert_to_utf8 e csv_path name content
          = (Inr True, [Write csv_path content, Print (Saved name Utf8)])"
    by blast
next
  fix t assume a: "utf8_decode content = None \<and> cp1252_decode content = Some t"
  then have d: "decode e Utf8 content = Inl UnicodeDecodeError" "decode e Cp1252 content = Inr t"
    by (simp_all add: assms(1) py_decode_def)
  from py_text_encodable [OF d(2) [unfolded assms(1)] assms(4)] obtain bs where
    bs: "utf8_encode (translate_newlines (linesep e) t) = Some bs" by blast
  from convert_cp1252 [OF d assms(2) bs _ assms(5)] assms(3) bs
  show "\<exists>bs. utf8_encode (translate_newlines (linesep e) t) = Some bs
          \<and> convert_to_utf8 e csv_path name content
              = (Inr True, [Write csv_path bs, Print (Saved name Cp1252)])"
    by blast
next
  assume a: "utf8_decode content = None \<and> cp1252_decode content = None"
  then have d: "decode e Utf8 content = Inl UnicodeDecodeError"
    "decode e Cp1252 content = Inl UnicodeDecodeError"
    "decode e Latin1 content = Inr (latin1_decode content)"
    by (simp_all add: assms(1) py_decode_def)
  from py_text_encodable [OF d(3) [unfolded assms(1)] assms(4)] obtain bs where
    bs: "utf8_encode (translate_newlines (linesep e) (latin1_decode content)) = Some bs"
    by blast
  from convert_latin1 [OF d assms(2) bs _ assms(5)] assms(3) bs
  show "\<exists>bs. utf8_encode (translate_newlines (linesep e) (latin1_decode content)) = Some bs
          \<and> convert_to_utf8 e csv_path name content
              = (Inr True, [Write csv_path bs, Print (Saved name Latin1)])"
    by blast
qed

theorem first_decodable_encoding_written_witness:
  "convert_to_utf8 served ''d/f.csv'' ''f.csv'' [0xC3, 0xA9]
     = (Inr True, [Write ''d/f.csv'' [0xC3, 0xA9], Print (Saved ''f.csv'' Utf8)])
   \<and> utf8_decode [0xC3, 0xA9] = Some [0xE9] \<and> utf8_encode [0xE9] = Some [0xC3, 0xA9]
   \<and> convert_to_utf8 served ''d/f.csv'' ''f.csv'' [0xE9]
     = (Inr True, [Write ''d/f.csv'' [0xC3, 0xA9], Print (Saved ''f.csv'' Cp1252)])
   \<and> convert_to_utf8 served ''d/f.csv'' ''f.csv'' [0x81]
     = (Inr True, [Write ''d/f.csv'' [0xC2, 0x81], Print (Saved ''f.csv'' Latin1)])"
proof -
  have a: "decode served = py_decode" "disk_open served ''d/f.csv'' = None"
    "\<forall>bs. disk_flush served ''d/f.csv'' bs = None" "\<forall>cp \<in> set (linesep served). cp < 0x80"
    "encodes (console served) 0x2713" "linesep served = [10]"
    by (simp_all add: served_def offline_def)
  show ?thesis
    using first_decodable_encoding_written [OF a(1-5), of "[0xC3, 0xA9]" "''f.csv''"]
      first_decodable_encoding_written [OF a(1-5), of "[0xE9]" "''f.csv''"]
      first_decodable_encoding_written [OF a(1-5), of "[0x81]" "''f.csv''"]
    by (simp add: decode_examples encode_examples a(6))
qed

text \<open>
  The claim as the specification words it (for every valid UTF-8 input the written file
  is byte-identical to the re-encoded input) fails where \<open>os.linesep\<close> is \<open>'\r\n'\<close>:
  the one-byte input \<open>'\n'\<close> is valid UTF-8 and re-encodes to itself, and the file
  receives the two bytes \<open>'\r\n'\<close>.
\<close>

theorem byte_identity_counterexample:
  "utf8_decode [0x0A] = Some [10] \<and> utf8_encode [10] = Some [0x0A]
   \<and> linesep crlf = [13, 10]
   \<and> convert_to_utf8 crlf ''d/f.csv'' ''f.csv'' [0x0A]
       = (Inr True, [Write ''d/f.csv'' [0x0D, 0x0A], Print (Saved ''f.csv'' Utf8)])
   \<and> download_csv_direct crlf ''u'' ''d'' ''f.csv''
       = (Inr True,
          [Print (Downloading ''f.csv''), Get ''u'', Write ''d/f.csv'' [0x0D, 0x0A],
           Print (Saved ''f.csv'' Utf8)])"
proof -
  have c: "convert_to_utf8 crlf ''d/f.csv'' ''f.csv'' [0x0A]
       = (Inr True, [Write ''d/f.csv'' [0x0D, 0x0A], Print (Saved ''f.csv'' Utf8)])"
    by (rule convert_utf8 [where t = "[10]"])
       (simp_all add: crlf_def offline_def py_decode_def decode_examples encode_examples
          translate_newlines_def)
  have g: "http_get crlf ''u'' = Inr (200, [0x0A])" "linesep crlf = [13, 10]"
    by (simp_all add: crlf_def offline_def)
  show ?thesis
    by (simp add: c g decode_examples encode_examples download_csv_direct_def
        download_csv_direct_body_def raise_for_status_def path_join_def Let_def)
qed

subsection \<open>Probe order\<close>

lemma requests_simps [simp]:
  "requests [] = []"
  "requests (Head u # xs) = Head u # requests xs"
  "requests (Get u # xs) = Get u # requests xs"
  "requests (Print m # xs) = requests xs"
  "requests (Write q bs # xs) = requests xs"
  "requests (WriteFailed q # xs) = requests xs"
  "requests (xs @ ys) = requests xs @ requests ys"
  by (simp_all add: requests_def)

lemma requests_try_encoding: "requests (snd (try_encoding e p nm c enc)) = []"
  by (auto simp: try_encoding_def write_text_def print_line_def
      split: sum.splits option.splits)

lemma requests_encoding_loop: "requests (snd (encoding_loop e p nm c encs)) = []"
proof (induction encs)
  case Nil
  then show ?case by simp
next
  case (Cons enc encs)
  with requests_try_encoding [of e p nm c enc] show ?case
    by (auto split: prod.splits sum.splits)
qed

lemma requests_convert_to_utf8:
  "convert_to_utf8 e p nm c = (r, evs) \<Longrightarrow> requests evs = []"
  using requests_encoding_loop [of e p nm c encodings]
  by (auto simp: convert_to_utf8_def split: prod.splits loop_result.splits)

lemma requests_download_csv_direct:
  "requests (snd (download_csv_direct e url tp fn)) = [Get url]"
proof -
  have "requests (snd (download_csv_direct_body e url tp fn)) = [Get url]"
    by (auto simp: download_csv_direct_body_def Let_def
        split: sum.splits prod.splits dest: requests_convert_to_utf8)
  then show ?thesis
    by (auto simp: download_csv_direct_def report_failure_def print_line_def
        split: prod.splits sum.splits)
qed

lemma requests_download_and_extract:
  "requests (snd (download_and_extract e url tp fn)) = [Get url]"
proof -
  have "requests (snd (download_and_extract_body e url tp fn)) = [Get url]"
    by (auto simp: download_and_extract_body_def Let_def
        split: sum.splits prod.splits dest: requests_convert_to_utf8)
  then show ?thesis
    by (auto simp: download_and_extract_def report_failure_def print_line_def
        split: prod.splits sum.splits)
qed

lemma events_process_month_zip:
  "month @ ''CSV'' \<notin> existing \<Longrightarrow> file_exists e (zip_url month) = Inr True \<Longrightarrow>
   snd (process_month e path existing month c) =
     Head (zip_url month) # snd (download_and_extract e (zip_url month) path (month @ ''CSV.zip''))"
  by (simp add: process_month_zip split: prod.splits sum.splits)

lemma events_process_month_csv:
  "month @ ''CSV'' \<notin> existing \<Longrightarrow> file_exists e (zip_url month) = Inr False \<Longrightarrow>
   file_exists e (csv_url month) = Inr True \<Longrightarrow>
   snd (process_month e path existing month c) =
     Head (zip_url month) # Head (csv_url month)
       # snd (download_csv_direct e (csv_url month) path (month @ ''CSV.csv''))"
  by (simp add: process_month_csv split: prod.splits sum.splits)

text \<open>
  C6.  For a month that is not skipped, the requests of the iteration are, in order: the
  HEAD of the archive URL; then, if that probe says the archive exists, the one GET of
  the archive URL, made by \<open>download_and_extract\<close>; if it says it does not, the HEAD of
  the bare URL and then, if that exists, the one GET of the bare URL, made by
  \<open>download_csv_direct\<close>.  No iteration contains more than one GET.
\<close>

theorem probe_order_and_fetch:
  assumes "month @ ''CSV'' \<notin> existing"
  shows "requests (snd (process_month e path existing month c)) =
           Head (zip_url month) #
           (case file_exists e (zip_url month) of
              Inl ex \<Rightarrow> []
            | Inr True \<Rightarrow> [Get (zip_url month)]
            | Inr False \<Rightarrow>
                Head (csv_url month) #
                (case file_exists e (csv_url month) of
                   Inr True \<Rightarrow> [Get (csv_url month)]
                 | _ \<Rightarrow> []))
     \<and> (file_exists e (zip_url month) = Inr True \<longrightarrow>
          snd (process_month e path existing month c) =
            Head (zip_url month)
              # snd (download_and_extract e (zip_url month) path (month @ ''CSV.zip'')))
     \<and> (file_exists e (zip_url month) = Inr False
          \<and> file_exists e (csv_url month) = Inr True \<longrightarrow>
          snd (process_month e path existing month c) =
            Head (zip_url month) # Head (csv_url month)
              # snd (download_csv_direct e (csv_url month) path (month @ ''CSV.csv'')))
     \<and> length (filter is_get (snd (process_month e path existing month c))) \<le> 1"
proof -
  let ?evs = "snd (process_month e path existing month c)"
  have r: "requests ?evs =
           Head (zip_url month) #
           (case file_exists e (zip_url month) of
              Inl ex \<Rightarrow> []
            | Inr True \<Rightarrow> [Get (zip_url month)]
            | Inr False \<Rightarrow>
                Head (csv_url month) #
                (case file_exists e (csv_url month) of
                   Inr True \<Rightarrow> [Get (csv_url month)]
                 | _ \<Rightarrow> []))"
  proof (cases "file_exists e (zip_url month)")
    case (Inl x)
    with assms show ?thesis by (simp add: process_month_zip_raises)
  next
    case (Inr found)
    show ?thesis
    proof (cases found)
      case True
      with Inr assms show ?thesis
        by (simp add: events_process_month_zip requests_download_and_extract)
    next
      case False
      with Inr have z: "file_exists e (zip_url month) = Inr False" by simp
      show ?thesis
      proof (cases "file_exists e (csv_url month)")
        case (Inl x)
        with z assms show ?thesis by (simp add: process_month_csv_raises)
      next
        case (Inr found2)
        with z assms show ?thesis
          by (cases found2)
             (simp_all add: events_process_month_csv requests_download_csv_direct
                process_month_miss)
      qed
    qed
  qed
  have g: "filter is_get evs = filter is_get (requests evs)" for evs
  proof (induction evs)
    case Nil
    show ?case by simp
  next
    case (Cons ev evs)
    then show ?case by (cases ev) simp_all
  qed
  have n: "length (filter is_get ?evs) \<le> 1"
    by (subst g, subst r) (simp split: sum.splits bool.splits)
  show ?thesis
    using r n events_process_month_zip [OF assms] events_process_month_csv [OF assms]
    by blast
qed

text \<open>Two instances: the archive is there; only the bare file is there.\<close>

theorem probe_order_and_fetch_witness:
  "requests (snd (process_month served ''d'' {} ''202001'' initial_counters))
     = [Head (zip_url ''202001''), Get (zip_url ''202001'')]
   \<and> requests (snd (process_month
         (served\<lparr>http_head := \<lambda>url. if url = csv_url ''202001'' then Inr 200 else Inr 404\<rparr>)
         ''d'' {} ''202001'' initial_counters))
     = [Head (zip_url ''202001''), Head (csv_url ''202001''), Get (csv_url ''202001'')]"
proof -
  let ?bare = "served\<lparr>http_head := \<lambda>url. if url = csv_url ''202001'' then Inr 200 else Inr 404\<rparr>"
  have 1: "file_exists served (zip_url ''202001'') = Inr True"
    by (simp add: file_exists_def served_def offline_def)
  have 2: "file_exists ?bare (zip_url ''202001'') = Inr False"
    "file_exists ?bare (csv_url ''202001'') = Inr True"
    by (simp_all add: file_exists_def zip_url_def csv_url_def)
  have n: "''202001'' @ ''CSV'' \<notin> {}" by simp
  show ?thesis
    using conjunct1 [OF probe_order_and_fetch [OF n, of served "''d''" initial_counters]]
      conjunct1 [OF probe_order_and_fetch [OF n, of ?bare "''d''" initial_counters]]
    by (simp add: 1 2)
qed

subsection \<open>The miss counter\<close>






















subsection \<open>Encoding exhaustion\<close>








end
